theory Spec2Isabelle
  imports Complex_Main "HOL-Library.Char_ord" "HOL-Library.List_Lexorder" "HOL-Library.AList"
    "HOL-Library.Multiset"
begin

section \<open>Python values\<close>

text \<open>
  The values \<^verbatim>\<open>json.loads\<close> produces and \<^verbatim>\<open>json.dumps\<close> consumes. A dict is an
  association list in insertion order with distinct keys. A float is modelled by the
  rational number it denotes: rounding, infinities and NaN are outside the model.
  Strings are sequences of ASCII characters.
\<close>

datatype pyval =
    PNone
  | PBool bool
  | PInt int
  | PFloat rat
  | PStr string
  | PList "pyval list"
  | PDict "(string \<times> pyval) list"

type_synonym pydict = "(string \<times> pyval) list"

subsection \<open>Strings\<close>

text \<open>\<^verbatim>\<open>str.strip()\<close>: the ASCII characters Python counts as whitespace.\<close>

definition is_space :: "char \<Rightarrow> bool" where
  "is_space c =
     (c \<in> set [CHR 0x09, CHR 0x0A, CHR 0x0B, CHR 0x0C, CHR 0x0D,
                CHR 0x1C, CHR 0x1D, CHR 0x1E, CHR 0x1F, CHR 0x20])"

definition strip :: "string \<Rightarrow> string" where
  "strip s = rev (dropWhile is_space (rev (dropWhile is_space s)))"

text \<open>\<^verbatim>\<open>str(n)\<close> of an integer: decimal digits, most significant first, no padding.\<close>

definition digit_char :: "nat \<Rightarrow> char" where
  "digit_char d = ''0123456789'' ! d"

fun str_nat :: "nat \<Rightarrow> string" where
  "str_nat n = (if n < 10 then [digit_char n] else str_nat (n div 10) @ [digit_char (n mod 10)])"

declare str_nat.simps [simp del]

definition str_int :: "int \<Rightarrow> string" where
  "str_int i = (if i < 0 then CHR ''-'' # str_nat (nat (- i)) else str_nat (nat i))"

text \<open>
  \<^verbatim>\<open>int(s)\<close> of a string: the blanks around it are dropped (tab, line feed, vertical
  tab, form feed, carriage return and space; not the separators \<^verbatim>\<open>0x1C\<close> to \<^verbatim>\<open>0x1F\<close> that
  \<^verbatim>\<open>str.strip()\<close> drops), one sign is allowed, then decimal digits, with single
  underscores between digits. Anything else raises \<^verbatim>\<open>ValueError\<close> (the result \<open>None\<close>).
\<close>

definition is_blank :: "char \<Rightarrow> bool" where
  "is_blank c = (c \<in> set [CHR 0x09, CHR 0x0A, CHR 0x0B, CHR 0x0C, CHR 0x0D, CHR 0x20])"

definition trim :: "string \<Rightarrow> string" where
  "trim s = rev (dropWhile is_blank (rev (dropWhile is_blank s)))"

definition is_digit :: "char \<Rightarrow> bool" where
  "is_digit c = (c \<in> set ''0123456789'')"

definition digit_val :: "char \<Rightarrow> nat" where
  "digit_val c = of_char c - 48"

definition nat_of_digits :: "string \<Rightarrow> nat" where
  "nat_of_digits s = foldl (\<lambda>acc c. 10 * acc + digit_val c) 0 s"

fun int_literal_ok :: "string \<Rightarrow> bool" where
  "int_literal_ok [] = False"
| "int_literal_ok [c] = is_digit c"
| "int_literal_ok (c # d # r) =
     (is_digit c \<and> (if d = CHR ''_'' then int_literal_ok r else int_literal_ok (d # r)))"

definition py_int_of_str :: "string \<Rightarrow> int option" where
  "py_int_of_str s =
     (let t = trim s;
          neg = (case t of c # _ \<Rightarrow> c = CHR ''-'' | [] \<Rightarrow> False);
          u = (case t of c # r \<Rightarrow> if c = CHR ''-'' \<or> c = CHR ''+'' then r else t | [] \<Rightarrow> t)
      in if int_literal_ok u
         then Some ((if neg then - 1 else 1) * int (nat_of_digits (filter is_digit u)))
         else None)"

subsection \<open>Dicts\<close>

text \<open>
  \<^verbatim>\<open>d.get(k)\<close> is \<open>map_of d k\<close>; \<^verbatim>\<open>d[k] = v\<close> is \<open>AList.update k v d\<close>, which
  replaces the value of a key already there and otherwise appends the pair.
\<close>

section \<open>Validation: the EventPayload model\<close>

text \<open>
  One entry of \<^verbatim>\<open>ValidationError.errors()\<close>: the field it is about, pydantic's error
  type, the message and the offending input (\<^verbatim>\<open>url\<close> and \<^verbatim>\<open>ctx\<close> are left out).
\<close>

record field_error =
  loc :: string
  err_type :: string
  msg :: string
  err_input :: pyval

record EventPayload =
  device_id :: string
  type :: string
  val :: rat
  ts :: int
  raw :: "pydict option"

text \<open>
  pydantic converts a decoded JSON value to the annotated type of its field. A \<^verbatim>\<open>str\<close>
  field takes only a string. An \<^verbatim>\<open>int\<close> field takes an int as it is and a \<^verbatim>\<open>float\<close>
  field a float or an int; \<^verbatim>\<open>None\<close>, a list and a dict are no numbers. What a bool, a
  string, or a float where an int is declared, becomes depends on the version of the
  library, which the repository does not pin: these conversions are taken as given, each
  returning the number or the type of pydantic's error.
\<close>

record pydantic =
  as_int :: "pyval \<Rightarrow> string + int"
  as_float :: "pyval \<Rightarrow> string + rat"

definition lax_int :: "pydantic \<Rightarrow> pyval \<Rightarrow> string + int" where
  "lax_int lib v =
     (case v of
        PInt i \<Rightarrow> Inr i
      | PBool b \<Rightarrow> as_int lib v
      | PFloat f \<Rightarrow> as_int lib v
      | PStr s \<Rightarrow> as_int lib v
      | _ \<Rightarrow> Inl ''int_type'')"

definition lax_float :: "pydantic \<Rightarrow> pyval \<Rightarrow> string + rat" where
  "lax_float lib v =
     (case v of
        PFloat f \<Rightarrow> Inr f
      | PInt i \<Rightarrow> Inr (of_int i)
      | PBool b \<Rightarrow> as_float lib v
      | PStr s \<Rightarrow> as_float lib v
      | _ \<Rightarrow> Inl ''float_type'')"

text \<open>The two validators of the class, as written.\<close>

definition not_empty :: "string \<Rightarrow> string + string" where
  "not_empty v = (if strip v = [] then Inl ''device_id cannot be empty'' else Inr v)"

definition ts_must_be_positive :: "int \<Rightarrow> string + int" where
  "ts_must_be_positive v =
     (if v \<le> 0 then Inl ''ts must be a positive epoch millisecond value'' else Inr v)"

definition missing :: "string \<Rightarrow> pydict \<Rightarrow> field_error" where
  "missing name data =
     \<lparr>loc = name, err_type = ''missing'', msg = ''Field required'', err_input = PDict data\<rparr>"

definition value_error :: "string \<Rightarrow> string \<Rightarrow> pyval \<Rightarrow> field_error" where
  "value_error name m v =
     \<lparr>loc = name, err_type = ''value_error'', msg = ''Value error, '' @ m, err_input = v\<rparr>"

text \<open>
  A field \<^verbatim>\<open>str = Field(..., min_length=1, max_length=n)\<close> with the validator
  \<^verbatim>\<open>not_empty\<close>: required, a string, the two length bounds, then the validator.
\<close>

definition check_str_field :: "string \<Rightarrow> nat \<Rightarrow> pydict \<Rightarrow> field_error + string" where
  "check_str_field name max_length data =
     (case map_of data name of
        None \<Rightarrow> Inl (missing name data)
      | Some v \<Rightarrow>
          (case v of
             PStr s \<Rightarrow>
               if length s < 1
               then Inl \<lparr>loc = name, err_type = ''string_too_short'',
                         msg = ''String should have at least 1 character'', err_input = v\<rparr>
               else if max_length < length s
               then Inl \<lparr>loc = name, err_type = ''string_too_long'',
                         msg = ''String should have at most '' @ str_nat max_length @ '' characters'',
                         err_input = v\<rparr>
               else (case not_empty s of
                       Inl m \<Rightarrow> Inl (value_error name m v)
                     | Inr s' \<Rightarrow> Inr s')
           | _ \<Rightarrow>
               Inl \<lparr>loc = name, err_type = ''string_type'',
                    msg = ''Input should be a valid string'', err_input = v\<rparr>))"

text \<open>\<^verbatim>\<open>value: float\<close>: required, a number.\<close>

definition check_value_field :: "pydantic \<Rightarrow> pydict \<Rightarrow> field_error + rat" where
  "check_value_field lib data =
     (case map_of data ''value'' of
        None \<Rightarrow> Inl (missing ''value'' data)
      | Some v \<Rightarrow>
          (case lax_float lib v of
             Inl t \<Rightarrow>
               Inl \<lparr>loc = ''value'', err_type = t,
                    msg = ''Input should be a valid number'', err_input = v\<rparr>
           | Inr f \<Rightarrow> Inr f))"

text \<open>\<^verbatim>\<open>ts: int = Field(...)\<close> with \<^verbatim>\<open>ts_must_be_positive\<close>.\<close>

definition check_ts_field :: "pydantic \<Rightarrow> pydict \<Rightarrow> field_error + int" where
  "check_ts_field lib data =
     (case map_of data ''ts'' of
        None \<Rightarrow> Inl (missing ''ts'' data)
      | Some v \<Rightarrow>
          (case lax_int lib v of
             Inl t \<Rightarrow>
               Inl \<lparr>loc = ''ts'', err_type = t,
                    msg = ''Input should be a valid integer'', err_input = v\<rparr>
           | Inr i \<Rightarrow>
               (case ts_must_be_positive i of
                  Inl m \<Rightarrow> Inl (value_error ''ts'' m v)
                | Inr i' \<Rightarrow> Inr i')))"

text \<open>\<^verbatim>\<open>raw: dict | None = None\<close>: optional; a dict or None when given.\<close>

definition check_raw_field :: "pydict \<Rightarrow> field_error + pydict option" where
  "check_raw_field data =
     (case map_of data ''raw'' of
        None \<Rightarrow> Inr None
      | Some v \<Rightarrow>
          (case v of
             PNone \<Rightarrow> Inr None
           | PDict d \<Rightarrow> Inr (Some d)
           | _ \<Rightarrow>
               Inl \<lparr>loc = ''raw'', err_type = ''dict_type'',
                    msg = ''Input should be a valid dictionary'', err_input = v\<rparr>))"

definition errors_of :: "'e + 'a \<Rightarrow> 'e list" where
  "errors_of r = (case r of Inl e \<Rightarrow> [e] | Inr _ \<Rightarrow> [])"

text \<open>
  \<^verbatim>\<open>EventPayload(**data)\<close>: every field is checked, in the order of the class, and the
  errors of all fields are collected into one \<^verbatim>\<open>ValidationError\<close>.
\<close>

definition EventPayload_init :: "pydantic \<Rightarrow> pydict \<Rightarrow> field_error list + EventPayload" where
  "EventPayload_init lib data =
     (let r1 = check_str_field ''device_id'' 128 data;
          r2 = check_str_field ''type'' 64 data;
          r3 = check_value_field lib data;
          r4 = check_ts_field lib data;
          r5 = check_raw_field data
      in case (r1, r2, r3, r4, r5) of
           (Inr d, Inr t, Inr v, Inr s, Inr r) \<Rightarrow>
             Inr \<lparr>device_id = d, type = t, val = v, ts = s, raw = r\<rparr>
         | _ \<Rightarrow>
             Inl (errors_of r1 @ errors_of r2 @ errors_of r3 @ errors_of r4 @ errors_of r5))"

section \<open>Exceptions\<close>

text \<open>
  The exceptions the handlers meet. \<open>ClientError code text\<close> is botocore's
  \<^verbatim>\<open>ClientError\<close> with \<^verbatim>\<open>response["Error"]["Code"]\<close> and \<^verbatim>\<open>str(exc)\<close>;
  \<open>BotoCoreError\<close> stands for every other exception of the AWS client library.
\<close>

datatype exn =
    JSONDecodeError string
  | ValidationError "field_error list"
  | ValueError string
  | TypeError string
  | ClientError string string
  | BotoCoreError string

section \<open>The event store and the queue\<close>

text \<open>
  The DynamoDB table with partition key \<^verbatim>\<open>PK\<close> and sort key \<^verbatim>\<open>SK\<close>, as the handlers
  use it. An item is the dict \<^verbatim>\<open>ingest_event\<close> builds; \<open>item_raw = None\<close> is an item
  without the attribute \<^verbatim>\<open>raw\<close>. Numbers are stored as decimals.
\<close>

record item =
  PK :: string
  SK :: string
  item_device_id :: string
  item_type :: string
  item_value :: rat
  item_ts :: int
  ingested_at :: rat
  item_request_id :: string
  item_raw :: "pydict option"

text \<open>
  \<^verbatim>\<open>put_item(Item=item, ConditionExpression="attribute_not_exists(SK)")\<close>. The call
  raises the fault when the environment has one for it (an I/O failure, throttling, a
  value the client cannot serialise); otherwise the condition is evaluated on the item
  with the same key: the write is refused when there is one, and adds the item when
  there is none.
\<close>

definition same_key :: "item \<Rightarrow> item \<Rightarrow> bool" where
  "same_key a b = (PK a = PK b \<and> SK a = SK b)"

definition put_item :: "exn option \<Rightarrow> item list \<Rightarrow> item \<Rightarrow> exn + item list" where
  "put_item fault tbl it =
     (case fault of
        Some e \<Rightarrow> Inl e
      | None \<Rightarrow>
          if filter (same_key it) tbl \<noteq> []
          then Inl (ClientError ''ConditionalCheckFailedException''
                      ''An error occurred (ConditionalCheckFailedException) when calling the PutItem operation: The conditional request failed'')
          else Inr (tbl @ [it]))"

text \<open>
  The key condition of a query: \<^verbatim>\<open>Key("PK").eq(pk)\<close>, alone or with a condition on the
  sort key. DynamoDB compares string keys by their bytes, left to right.
\<close>

datatype sk_cond =
    SK_any
  | SK_between string string
  | SK_gte string
  | SK_lte string

fun sk_holds :: "sk_cond \<Rightarrow> string \<Rightarrow> bool" where
  "sk_holds SK_any s = True"
| "sk_holds (SK_between lo hi) s = (lo \<le> s \<and> s \<le> hi)"
| "sk_holds (SK_gte lo) s = (lo \<le> s)"
| "sk_holds (SK_lte hi) s = (s \<le> hi)"

record query_result =
  Items :: "item list"
  LastEvaluatedKey :: "(string \<times> string) option"

text \<open>
  \<^verbatim>\<open>query(KeyConditionExpression=..., Limit=limit, ScanIndexForward=...)\<close>: the items of
  the partition that satisfy the condition, in the order of their sort keys (descending
  when \<^verbatim>\<open>ScanIndexForward\<close> is false), at most \<^verbatim>\<open>Limit\<close> of them, with the key of the
  last one when more remain. The client library refuses a \<^verbatim>\<open>Limit\<close> below 1 before any
  request is sent. (The 1 MB page size of the service is outside the model.)
\<close>

definition query ::
  "exn option \<Rightarrow> item list \<Rightarrow> string \<Rightarrow> sk_cond \<Rightarrow> int \<Rightarrow> bool \<Rightarrow> exn + query_result" where
  "query fault tbl pk c limit scan_index_forward =
     (case fault of
        Some e \<Rightarrow> Inl e
      | None \<Rightarrow>
          if limit < 1 then Inl (BotoCoreError ''ParamValidationError'')
          else
            let hits = sort_key SK (filter (\<lambda>x. PK x = pk \<and> sk_holds c (SK x)) tbl);
                ordered = (if scan_index_forward then hits else rev hits);
                page = take (nat limit) ordered
            in Inr \<lparr>Items = page,
                    LastEvaluatedKey =
                      (if nat limit < length ordered
                       then Some (PK (last page), SK (last page)) else None)\<rparr>)"

text \<open>\<^verbatim>\<open>send_message(MessageBody=json.dumps(sqs_msg))\<close>: the queue holds the messages sent.\<close>

definition send_message :: "exn option \<Rightarrow> pydict list \<Rightarrow> pydict \<Rightarrow> exn + pydict list" where
  "send_message fault q m = (case fault of Some e \<Rightarrow> Inl e | None \<Rightarrow> Inr (q @ [m]))"

section \<open>Requests, responses, the environment\<close>

text \<open>
  The Lambda event. \<^verbatim>\<open>json.loads\<close> is the standard library's parser and is not
  re-implemented: a string body is given by what \<^verbatim>\<open>json.loads\<close> makes of it, the decoded
  value or the message of the \<^verbatim>\<open>JSONDecodeError\<close>. \<open>NoBody\<close> is a missing key or
  \<^verbatim>\<open>None\<close>, \<open>OtherBody\<close> any other value that is not a string.
\<close>

datatype body_in = NoBody | OtherBody | StrBody "string + pyval"

record lambda_event =
  event_body :: body_in
  pathParameters :: "(string \<times> string) list option"
  queryStringParameters :: "(string \<times> string) list option"

record lambda_response =
  statusCode :: int
  headers :: "(string \<times> string) list"
  body :: pydict

text \<open>
  What a call reads from outside: the uuid \<^verbatim>\<open>uuid.uuid4()\<close> would give, the clock, and
  the exception (if any) each call to the store or the queue raises.
\<close>

record env =
  uuid4 :: string
  time :: rat
  put_fault :: "exn option"
  send_fault :: "exn option"
  query_fault :: "exn option"

text \<open>
  What outlives a call: the table, the queue, the calls made to them so far, in the order
  they were made, and the installed pydantic, which no call changes.
\<close>

datatype call =
    PutItem item
  | SendMessage pydict
  | Query string sk_cond int

record world =
  table :: "item list"
  queue :: "pydict list"
  calls :: "call list"
  lib :: pydantic

text \<open>
  \<^verbatim>\<open>_response(status, body, request_id=None)\<close>. The field \<open>body\<close> is the payload dict
  that \<^verbatim>\<open>json.dumps(payload, default=str)\<close> serialises.
\<close>

definition response :: "int \<Rightarrow> pyval \<Rightarrow> string option \<Rightarrow> lambda_response" where
  "response status b request_id =
     (let payload = (case b of PDict d \<Rightarrow> d | _ \<Rightarrow> [(''message'', b)]);
          rid = (case request_id of Some r \<Rightarrow> r | None \<Rightarrow> [])
      in \<lparr>statusCode = status,
          headers = [(''Content-Type'', ''application/json''), (''X-Request-Id'', rid)],
          body = (if rid \<noteq> [] then AList.update ''request_id'' (PStr rid) payload
                  else payload)\<rparr>)"

section \<open>POST /events\<close>

text \<open>\<^verbatim>\<open>_parse_body(event)\<close>. \<^verbatim>\<open>EventPayload(**data)\<close> needs a mapping.\<close>

definition parse_body :: "pydantic \<Rightarrow> lambda_event \<Rightarrow> exn + EventPayload" where
  "parse_body pyd event =
     (case event_body event of
        StrBody r \<Rightarrow>
          (case r of
             Inl e \<Rightarrow> Inl (JSONDecodeError e)
           | Inr data \<Rightarrow>
               (case data of
                  PDict d \<Rightarrow>
                    (case EventPayload_init pyd d of
                       Inl errs \<Rightarrow> Inl (ValidationError errs)
                     | Inr p \<Rightarrow> Inr p)
                | _ \<Rightarrow> Inl (TypeError ''argument after ** must be a mapping'')))
      | _ \<Rightarrow> Inl (ValueError ''Message Body is required''))"

definition error_py :: "field_error \<Rightarrow> pyval" where
  "error_py e =
     PDict [(''type'', PStr (err_type e)), (''loc'', PList [PStr (loc e)]),
            (''msg'', PStr (msg e)), (''input'', err_input e)]"

definition request_id_of :: "env \<Rightarrow> string option \<Rightarrow> string" where
  "request_id_of env ctx = (case ctx of Some rid \<Rightarrow> rid | None \<Rightarrow> uuid4 env)"

definition make_item :: "env \<Rightarrow> string \<Rightarrow> EventPayload \<Rightarrow> item" where
  "make_item env request_id payload =
     \<lparr>PK = ''DEVICE#'' @ device_id payload,
      SK = ''TS#'' @ str_int (ts payload),
      item_device_id = device_id payload,
      item_type = type payload,
      item_value = val payload,
      item_ts = ts payload,
      ingested_at = time env * 1000,
      item_request_id = request_id,
      item_raw = (case raw payload of
                    Some d \<Rightarrow> if d \<noteq> [] then Some d else None
                  | None \<Rightarrow> None)\<rparr>"

definition make_sqs_msg :: "string \<Rightarrow> EventPayload \<Rightarrow> pydict" where
  "make_sqs_msg request_id payload =
     [(''device_id'', PStr (device_id payload)),
      (''type'', PStr (type payload)),
      (''value'', PFloat (val payload)),
      (''ts'', PInt (ts payload)),
      (''request_id'', PStr request_id),
      (''event_id'', PStr (''DEVICE#'' @ device_id payload @ '':'' @ ''TS#'' @ str_int (ts payload)))]"

text \<open>The second half of \<^verbatim>\<open>ingest_event\<close>: the publish after a successful write.\<close>

definition enqueue :: "env \<Rightarrow> world \<Rightarrow> string \<Rightarrow> EventPayload \<Rightarrow> (exn + lambda_response) \<times> world" where
  "enqueue env w request_id payload =
     (let sqs_msg = make_sqs_msg request_id payload;
          w' = w\<lparr>calls := calls w @ [SendMessage sqs_msg]\<rparr>
      in case send_message (send_fault env) (queue w) sqs_msg of
           Inl e \<Rightarrow>
             (case e of
                ClientError code text \<Rightarrow>
                  (Inr (response 500
                          (PDict [(''message'', PStr ''SQS Enqueue failed,''), (''error'', PStr text)])
                          None), w')
              | _ \<Rightarrow> (Inl e, w'))
         | Inr q' \<Rightarrow>
             (Inr (response 201
                     (PDict [(''message'', PStr ''Event ingested''),
                             (''device_id'', PStr (device_id payload)),
                             (''ts'', PInt (ts payload)),
                             (''request_id'', PStr request_id)])
                     None),
              w'\<lparr>queue := q'\<rparr>))"

text \<open>
  The conditional write and what follows each of its outcomes. (The message of the 409
  response has a dash outside ASCII in the source; it is written \<open>-\<close> here.)
\<close>

definition store :: "env \<Rightarrow> world \<Rightarrow> string \<Rightarrow> EventPayload \<Rightarrow> (exn + lambda_response) \<times> world" where
  "store env w request_id payload =
     (let it = make_item env request_id payload;
          w' = w\<lparr>calls := calls w @ [PutItem it]\<rparr>
      in case put_item (put_fault env) (table w) it of
           Inl e \<Rightarrow>
             (case e of
                ClientError code text \<Rightarrow>
                  if code = ''ConditionalCheckFailedException''
                  then (Inr (response 409
                               (PDict [(''message'', PStr ''Duplicate event - already stored''),
                                       (''request_id'', PStr request_id)])
                               None), w')
                  else (Inr (response 500 (PDict [(''error'', PStr ''Failed to store event'')])
                               (Some request_id)), w')
              | _ \<Rightarrow> (Inl e, w'))
         | Inr tbl' \<Rightarrow> enqueue env (w'\<lparr>table := tbl'\<rparr>) request_id payload)"

definition ingest_event ::
  "env \<Rightarrow> world \<Rightarrow> lambda_event \<Rightarrow> string option \<Rightarrow> (exn + lambda_response) \<times> world" where
  "ingest_event env w event ctx =
     (let request_id = request_id_of env ctx
      in case parse_body (lib w) event of
           Inl e \<Rightarrow>
             (case e of
                JSONDecodeError m \<Rightarrow>
                  (Inr (response 400
                          (PDict [(''error'', PStr ''Invalid JSON body''), (''detail'', PStr m)])
                          (Some request_id)), w)
              | ValidationError errs \<Rightarrow>
                  (Inr (response 400
                          (PDict [(''error'', PStr ''Validation failed''),
                                  (''detail'', PList (map error_py errs))])
                          (Some request_id)), w)
              | _ \<Rightarrow> (Inl e, w))
         | Inr payload \<Rightarrow> store env w request_id payload)"

section \<open>GET /devices/{device_id}/events\<close>

text \<open>A query parameter counts as given when it is a non-empty string.\<close>

definition given :: "string option \<Rightarrow> string option" where
  "given p = (case p of Some s \<Rightarrow> if s \<noteq> [] then Some s else None | None \<Rightarrow> None)"

definition key_condition :: "string option \<Rightarrow> string option \<Rightarrow> sk_cond" where
  "key_condition from_ts to_ts =
     (case given from_ts of
        Some f \<Rightarrow>
          (case given to_ts of
             Some t \<Rightarrow> SK_between (''TS#'' @ f) (''TS#'' @ t)
           | None \<Rightarrow> SK_gte (''TS#'' @ f))
      | None \<Rightarrow>
          (case given to_ts of
             Some t \<Rightarrow> SK_lte (''TS#'' @ t)
           | None \<Rightarrow> SK_any))"

text \<open>\<^verbatim>\<open>int(x)\<close> of a decimal: the fractional part is cut off.\<close>

definition py_trunc :: "rat \<Rightarrow> int" where
  "py_trunc x = (if 0 \<le> x then \<lfloor>x\<rfloor> else \<lceil>x\<rceil>)"

text \<open>A row of the result after the three conversions of the loop.\<close>

definition row_py :: "item \<Rightarrow> pyval" where
  "row_py r =
     PDict ([(''PK'', PStr (PK r)),
             (''SK'', PStr (SK r)),
             (''device_id'', PStr (item_device_id r)),
             (''type'', PStr (item_type r)),
             (''value'', PFloat (item_value r)),
             (''ts'', PInt (item_ts r)),
             (''ingested_at'', PInt (py_trunc (ingested_at r))),
             (''request_id'', PStr (item_request_id r))]
            @ (case item_raw r of Some d \<Rightarrow> [(''raw'', PDict d)] | None \<Rightarrow> []))"

definition key_py :: "(string \<times> string) option \<Rightarrow> pyval" where
  "key_py k =
     (case k of
        Some (p, s) \<Rightarrow> PDict [(''PK'', PStr p), (''SK'', PStr s)]
      | None \<Rightarrow> PNone)"

text \<open>\<^verbatim>\<open>int(query_params.get("limit", 100))\<close>.\<close>

definition limit_of :: "(string \<times> string) list \<Rightarrow> exn + int" where
  "limit_of query_params =
     (case map_of query_params ''limit'' of
        None \<Rightarrow> Inr 100
      | Some s \<Rightarrow>
          (case py_int_of_str s of
             Some n \<Rightarrow> Inr n
           | None \<Rightarrow>
               Inl (ValueError (''invalid literal for int() with base 10: ''
                                @ [CHR 0x27] @ s @ [CHR 0x27]))))"

definition get_device_events ::
  "env \<Rightarrow> world \<Rightarrow> lambda_event \<Rightarrow> string option \<Rightarrow> (exn + lambda_response) \<times> world" where
  "get_device_events env w event ctx =
     (let request_id = request_id_of env ctx;
          path_params = (case pathParameters event of Some p \<Rightarrow> p | None \<Rightarrow> []);
          dev = strip (case map_of path_params ''device_id'' of Some d \<Rightarrow> d | None \<Rightarrow> [])
      in if dev = []
         then (Inr (response 400 (PDict [(''error'', PStr ''device_id path parameter is required'')])
                      (Some request_id)), w)
         else
           let query_params = (case queryStringParameters event of Some q \<Rightarrow> q | None \<Rightarrow> []);
               from_ts = map_of query_params ''from_ts'';
               to_ts = map_of query_params ''to_ts''
           in case limit_of query_params of
                Inl e \<Rightarrow> (Inl e, w)
              | Inr limit \<Rightarrow>
                  let pk = ''DEVICE#'' @ dev;
                      cond = key_condition from_ts to_ts;
                      w' = w\<lparr>calls := calls w @ [Query pk cond limit]\<rparr>
                  in case query (query_fault env) (table w) pk cond limit False of
                       Inl e \<Rightarrow>
                         (case e of
                            ClientError code text \<Rightarrow>
                              (Inr (response 500 (PDict [(''error'', PStr ''Failed to retrieve events'')])
                                      (Some request_id)), w')
                          | _ \<Rightarrow> (Inl e, w'))
                     | Inr result \<Rightarrow>
                         (Inr (response 200
                                 (PDict [(''device_id'', PStr dev),
                                         (''count'', PInt (int (length (Items result)))),
                                         (''events'', PList (map row_py (Items result))),
                                         (''last_evaluated_key'', key_py (LastEvaluatedKey result))])
                                 (Some request_id)), w'))"

section \<open>Vocabulary of the properties\<close>

text \<open>
  Every item \<^verbatim>\<open>ingest_event\<close> writes has its keys derived from its own fields and a
  positive timestamp: the invariant of every table the handlers have filled.
\<close>

definition item_ok :: "item \<Rightarrow> bool" where
  "item_ok x =
     (PK x = ''DEVICE#'' @ item_device_id x \<and> SK x = ''TS#'' @ str_int (item_ts x) \<and> 0 < item_ts x)"

definition store_inv :: "item list \<Rightarrow> bool" where
  "store_inv tbl = list_all item_ok tbl"

text \<open>The stored records of one \<open>(device_id, ts)\<close> pair.\<close>

definition records_of :: "string \<Rightarrow> int \<Rightarrow> item list \<Rightarrow> item list" where
  "records_of d t tbl = filter (\<lambda>x. item_device_id x = d \<and> item_ts x = t) tbl"

text \<open>The three outcomes of the insert, read off what \<open>put_item\<close> returns or raises.\<close>

datatype insert_outcome = Accepted | Duplicate | StoreFailure

definition outcome_of :: "exn + item list \<Rightarrow> insert_outcome" where
  "outcome_of r =
     (case r of
        Inr _ \<Rightarrow> Accepted
      | Inl e \<Rightarrow>
          (case e of
             ClientError code text \<Rightarrow>
               if code = ''ConditionalCheckFailedException'' then Duplicate else StoreFailure
           | _ \<Rightarrow> StoreFailure))"

fun is_send :: "call \<Rightarrow> bool" where
  "is_send (SendMessage m) = True"
| "is_send c = False"

text \<open>A sequence of ingest requests, each with its own environment and context.\<close>

fun ingest_all :: "world \<Rightarrow> (env \<times> lambda_event \<times> string option) list \<Rightarrow> world" where
  "ingest_all w [] = w"
| "ingest_all w ((env, event, ctx) # rest) = ingest_all (snd (ingest_event env w event ctx)) rest"

text \<open>
  The device a read request is about: its path parameter without the surrounding
  whitespace, as \<^verbatim>\<open>get_device_events\<close> reads it.
\<close>

definition requested_device :: "lambda_event \<Rightarrow> string" where
  "requested_device event =
     strip (case map_of (case pathParameters event of Some p \<Rightarrow> p | None \<Rightarrow> []) ''device_id'' of
              Some d \<Rightarrow> d
            | None \<Rightarrow> [])"











text \<open>The bounds of a range, as integers: a timestamp within them.\<close>

definition in_range :: "int option \<Rightarrow> int option \<Rightarrow> int \<Rightarrow> bool" where
  "in_range lo hi t =
     ((case lo of None \<Rightarrow> True | Some f \<Rightarrow> f \<le> t) \<and> (case hi of None \<Rightarrow> True | Some h \<Rightarrow> t \<le> h))"

text \<open>
  A positive timestamp whose decimal form has \<open>n\<close> digits, and the same for a bound that
  may be absent.
\<close>

definition has_width :: "nat \<Rightarrow> int \<Rightarrow> bool" where
  "has_width n t = (0 < t \<and> length (str_int t) = n)"

definition bound_has_width :: "nat \<Rightarrow> int option \<Rightarrow> bool" where
  "bound_has_width n b = (case b of None \<Rightarrow> True | Some t \<Rightarrow> has_width n t)"

text \<open>The stored records of a device within a range of timestamps.\<close>

definition stored_in_range :: "string \<Rightarrow> int option \<Rightarrow> int option \<Rightarrow> item list \<Rightarrow> item list" where
  "stored_in_range dev lo hi tbl =
     filter (\<lambda>x. item_device_id x = dev \<and> in_range lo hi (item_ts x)) tbl"

text \<open>The timestamps of the events a response lists, in its order.\<close>

definition ts_of_row :: "pyval \<Rightarrow> pyval" where
  "ts_of_row r =
     (case r of
        PDict d \<Rightarrow> (case map_of d ''ts'' of Some v \<Rightarrow> v | None \<Rightarrow> PNone)
      | _ \<Rightarrow> PNone)"

definition event_ts :: "lambda_response \<Rightarrow> pyval list" where
  "event_ts resp =
     (case map_of (body resp) ''events'' of
        Some (PList rows) \<Rightarrow> map ts_of_row rows
      | _ \<Rightarrow> [])"

subsection \<open>Examples\<close>

text \<open>
  One pydantic, for the examples: a bool counts as 0 or 1; a float without fractional
  part counts as its integer when that fits 64 bits; a string is read in decimal
  notation, with blanks around it and a sign allowed, and for a float a fraction and an
  exponent as well.
\<close>

definition signed :: "string \<Rightarrow> bool \<times> string" where
  "signed s =
     (case s of
        [] \<Rightarrow> (False, s)
      | c # r \<Rightarrow> if c = CHR ''-'' then (True, r) else if c = CHR ''+'' then (False, r) else (False, s))"

definition int_of_decimal :: "string \<Rightarrow> int option" where
  "int_of_decimal s =
     (case signed s of
        (neg, u) \<Rightarrow>
          if u = [] then None
          else if list_all is_digit u
          then Some ((if neg then - 1 else 1) * int (nat_of_digits u))
          else None)"

definition is_exp_mark :: "char \<Rightarrow> bool" where
  "is_exp_mark c = (c = CHR ''e'' \<or> c = CHR ''E'')"

definition rat_of_decimal :: "string \<Rightarrow> rat option" where
  "rat_of_decimal s =
     (case signed s of
        (neg, u) \<Rightarrow>
          let m = takeWhile (\<lambda>c. \<not> is_exp_mark c) u;
              x = dropWhile (\<lambda>c. \<not> is_exp_mark c) u;
              ip = takeWhile is_digit m;
              fp = (case dropWhile is_digit m of
                      [] \<Rightarrow> Some []
                    | c # t \<Rightarrow> if c = CHR ''.'' \<and> list_all is_digit t then Some t else None);
              ex = (case x of [] \<Rightarrow> Some 0 | c # t \<Rightarrow> int_of_decimal t)
          in case fp of
               None \<Rightarrow> None
             | Some f \<Rightarrow>
                 (case ex of
                    None \<Rightarrow> None
                  | Some e \<Rightarrow>
                      if ip = [] \<and> f = [] then None
                      else Some ((if neg then - 1 else 1)
                                 * (of_nat (nat_of_digits ip) + of_nat (nat_of_digits f) / 10 ^ length f)
                                 * (if 0 \<le> e then 10 ^ nat e else 1 / 10 ^ nat (- e)))))"

definition plain_int :: "pyval \<Rightarrow> string + int" where
  "plain_int v =
     (case v of
        PInt i \<Rightarrow> Inr i
      | PBool b \<Rightarrow> Inr (if b then 1 else 0)
      | PFloat f \<Rightarrow>
          if of_int \<lfloor>f\<rfloor> = f
          then (if - (2 ^ 63) < f \<and> f < 2 ^ 63 then Inr \<lfloor>f\<rfloor> else Inl ''int_parsing_size'')
          else Inl ''int_from_float''
      | PStr s \<Rightarrow> (case int_of_decimal (trim s) of Some i \<Rightarrow> Inr i | None \<Rightarrow> Inl ''int_parsing'')
      | _ \<Rightarrow> Inl ''int_type'')"

definition plain_float :: "pyval \<Rightarrow> string + rat" where
  "plain_float v =
     (case v of
        PFloat f \<Rightarrow> Inr f
      | PInt i \<Rightarrow> Inr (of_int i)
      | PBool b \<Rightarrow> Inr (if b then 1 else 0)
      | PStr s \<Rightarrow> (case rat_of_decimal (trim s) of Some f \<Rightarrow> Inr f | None \<Rightarrow> Inl ''float_parsing'')
      | _ \<Rightarrow> Inl ''float_type'')"

definition plain :: pydantic where
  "plain = \<lparr>as_int = plain_int, as_float = plain_float\<rparr>"

text \<open>The world before any call: nothing stored, nothing sent.\<close>

definition empty_world :: world where
  "empty_world = \<lparr>table = [], queue = [], calls = [], lib = plain\<rparr>"

text \<open>An environment without faults.\<close>

definition env_ok :: env where
  "env_ok = \<lparr>uuid4 = ''uuid-1'', time = 1700000000, put_fault = None, send_fault = None,
             query_fault = None\<rparr>"

text \<open>\<^verbatim>\<open>POST /events\<close> with the body \<^verbatim>\<open>{"device_id": d, "type": "temp", "value": 21.5, "ts": t}\<close>.\<close>

definition post_event :: "string \<Rightarrow> int \<Rightarrow> lambda_event" where
  "post_event d t =
     \<lparr>event_body = StrBody (Inr (PDict [(''device_id'', PStr d), (''type'', PStr ''temp''),
                                         (''value'', PFloat (43 / 2)), (''ts'', PInt t)])),
      pathParameters = None, queryStringParameters = None\<rparr>"

text \<open>\<^verbatim>\<open>POST /events\<close> with a decoded JSON object as body.\<close>

definition post_json :: "pydict \<Rightarrow> lambda_event" where
  "post_json data =
     \<lparr>event_body = StrBody (Inr (PDict data)), pathParameters = None,
      queryStringParameters = None\<rparr>"

text \<open>\<^verbatim>\<open>GET /devices/d/events\<close> with the query parameters \<open>ps\<close>.\<close>

definition get_events :: "string \<Rightarrow> (string \<times> string) list \<Rightarrow> lambda_event" where
  "get_events d ps =
     \<lparr>event_body = NoBody, pathParameters = Some [(''device_id'', d)],
      queryStringParameters = Some ps\<rparr>"

section \<open>Lemmas\<close>

subsection \<open>Decimal strings\<close>

lemma is_digit_range: "is_digit c \<Longrightarrow> 48 \<le> (of_char c :: nat) \<and> (of_char c :: nat) \<le> 57"
  by (auto simp: is_digit_def)

lemma digit_char_is_digit: "d < 10 \<Longrightarrow> is_digit (digit_char d)"
proof -
  assume "d < 10"
  then have "d \<in> {0,1,2,3,4,5,6,7,8,9}" by auto
  then show ?thesis by (auto simp: digit_char_def is_digit_def)
qed

lemma digit_val_digit_char: "d < 10 \<Longrightarrow> digit_val (digit_char d) = d"
proof -
  assume "d < 10"
  then have "d \<in> {0,1,2,3,4,5,6,7,8,9}" by auto
  then show ?thesis by (auto simp: digit_char_def digit_val_def)
qed

lemma nat_of_digits_snoc: "nat_of_digits (xs @ [c]) = 10 * nat_of_digits xs + digit_val c"
  by (simp add: nat_of_digits_def)

lemma nat_of_digits_str_nat: "nat_of_digits (str_nat n) = n"
proof (induction n rule: str_nat.induct)
  case (1 n)
  show ?case
  proof (cases "n < 10")
    case True
    then show ?thesis by (simp add: str_nat.simps[of n] nat_of_digits_def digit_val_digit_char)
  next
    case False
    then have "nat_of_digits (str_nat n) = 10 * nat_of_digits (str_nat (n div 10)) + digit_val (digit_char (n mod 10))"
      by (subst str_nat.simps) (simp add: nat_of_digits_snoc)
    also have "\<dots> = 10 * (n div 10) + n mod 10"
      using 1 False by (simp add: digit_val_digit_char)
    finally show ?thesis by simp
  qed
qed

lemma str_nat_digits: "list_all is_digit (str_nat n)"
proof (induction n rule: str_nat.induct)
  case (1 n)
  show ?case
  proof (cases "n < 10")
    case True
    then show ?thesis by (simp add: str_nat.simps[of n] digit_char_is_digit)
  next
    case False
    then show ?thesis using 1 by (subst str_nat.simps) (simp add: digit_char_is_digit)
  qed
qed

lemma str_nat_nonempty: "str_nat n \<noteq> []"
  by (subst str_nat.simps) simp

lemma str_nat_inj: "str_nat a = str_nat b \<Longrightarrow> a = b"
  by (metis nat_of_digits_str_nat)

lemma not_digit_minus: "\<not> is_digit (CHR ''-'')"
  by (simp add: is_digit_def)

lemma str_nat_hd: "hd (str_nat n) \<noteq> CHR ''-''"
proof -
  have "is_digit (hd (str_nat n))"
    using str_nat_digits[of n] str_nat_nonempty[of n] by (cases "str_nat n") auto
  then show ?thesis using not_digit_minus by auto
qed

lemma str_int_inj: "str_int a = str_int b \<Longrightarrow> a = b"
proof -
  assume h: "str_int a = str_int b"
  show ?thesis
  proof (cases "a < 0")
    case True
    show ?thesis
    proof (cases "b < 0")
      case True
      with \<open>a < 0\<close> h have "str_nat (nat (- a)) = str_nat (nat (- b))" by (simp add: str_int_def)
      then have "nat (- a) = nat (- b)" by (rule str_nat_inj)
      with True \<open>a < 0\<close> show ?thesis by simp
    next
      case False
      with \<open>a < 0\<close> h have "CHR ''-'' # str_nat (nat (- a)) = str_nat (nat b)" by (simp add: str_int_def)
      then have "hd (str_nat (nat b)) = CHR ''-''" by (metis list.sel(1))
      with str_nat_hd show ?thesis by blast
    qed
  next
    case False
    show ?thesis
    proof (cases "b < 0")
      case True
      with False h have "str_nat (nat a) = CHR ''-'' # str_nat (nat (- b))" by (simp add: str_int_def)
      then have "hd (str_nat (nat a)) = CHR ''-''" by (metis list.sel(1))
      with str_nat_hd show ?thesis by blast
    next
      case False
      with \<open>\<not> a < 0\<close> h have "str_nat (nat a) = str_nat (nat b)" by (simp add: str_int_def)
      then have "nat a = nat b" by (rule str_nat_inj)
      with False \<open>\<not> a < 0\<close> show ?thesis by simp
    qed
  qed
qed

lemma nat_of_digits_Cons: "nat_of_digits (c # xs) = digit_val c * 10 ^ length xs + nat_of_digits xs"
proof (induction xs arbitrary: c rule: rev_induct)
  case Nil
  then show ?case by (simp add: nat_of_digits_def)
next
  case (snoc x xs)
  have "nat_of_digits (c # xs @ [x]) = 10 * nat_of_digits (c # xs) + digit_val x"
    using nat_of_digits_snoc[of "c # xs" x] by simp
  then show ?case using snoc by (simp add: nat_of_digits_snoc algebra_simps)
qed

lemma nat_of_digits_bound: "list_all is_digit xs \<Longrightarrow> nat_of_digits xs < 10 ^ length xs"
proof (induction xs rule: rev_induct)
  case Nil
  then show ?case by (simp add: nat_of_digits_def)
next
  case (snoc x xs)
  then have "is_digit x" and IH: "nat_of_digits xs < 10 ^ length xs" by auto
  then have "digit_val x \<le> 9" using is_digit_range[of x] unfolding digit_val_def by linarith
  with IH show ?case by (simp add: nat_of_digits_snoc)
qed

lemma digit_less: "is_digit c \<Longrightarrow> is_digit d \<Longrightarrow> (c < d) = (digit_val c < digit_val d)"
  using is_digit_range[of c] is_digit_range[of d]
  by (auto simp: less_char_def digit_val_def)

lemma digit_eq: "is_digit c \<Longrightarrow> is_digit d \<Longrightarrow> (c = d) = (digit_val c = digit_val d)"
  by (auto simp: is_digit_def digit_val_def)

lemma digits_le:
  "list_all is_digit xs \<Longrightarrow> list_all is_digit ys \<Longrightarrow> length xs = length ys \<Longrightarrow>
   (xs \<le> ys) = (nat_of_digits xs \<le> nat_of_digits ys)"
proof (induction xs ys rule: list_induct2')
  case 1
  then show ?case by simp
next
  case (2 x xs)
  then show ?case by simp
next
  case (3 y ys)
  then show ?case by simp
next
  case (4 x xs y ys)
  then have dx: "is_digit x" and dy: "is_digit y" and len: "length xs = length ys"
    and IH: "(xs \<le> ys) = (nat_of_digits xs \<le> nat_of_digits ys)" by auto
  from 4 have dxs: "list_all is_digit xs" and dys: "list_all is_digit ys" by simp_all
  have bx: "nat_of_digits xs < 10 ^ length xs" by (rule nat_of_digits_bound[OF dxs])
  have by': "nat_of_digits ys < 10 ^ length ys" by (rule nat_of_digits_bound[OF dys])
  show ?case
  proof (cases "digit_val x < digit_val y")
    case True
    then have "(digit_val x + 1) * 10 ^ length xs \<le> digit_val y * 10 ^ length xs"
      by (intro mult_le_mono1) simp
    then have "nat_of_digits (x # xs) < nat_of_digits (y # ys)"
      using bx len by (simp add: nat_of_digits_Cons)
    moreover have "x < y" using True dx dy by (simp add: digit_less)
    ultimately show ?thesis by simp
  next
    case False
    show ?thesis
    proof (cases "digit_val x = digit_val y")
      case True
      then have "x = y" using dx dy by (simp add: digit_eq)
      then show ?thesis using IH len by (simp add: nat_of_digits_Cons)
    next
      case False
      with \<open>\<not> digit_val x < digit_val y\<close> have gt: "digit_val y < digit_val x" by simp
      then have "(digit_val y + 1) * 10 ^ length xs \<le> digit_val x * 10 ^ length xs"
        by (intro mult_le_mono1) simp
      then have "nat_of_digits (y # ys) < nat_of_digits (x # xs)"
        using by' len by (simp add: nat_of_digits_Cons)
      moreover have "y < x" using gt dx dy by (simp add: digit_less)
      ultimately show ?thesis by auto
    qed
  qed
qed

lemma str_nat_le:
  "length (str_nat a) = length (str_nat b) \<Longrightarrow> (str_nat a \<le> str_nat b) = (a \<le> b)"
  using digits_le[OF str_nat_digits str_nat_digits, of a b] by (simp add: nat_of_digits_str_nat)

lemmas string_defs = strip_def is_space_def trim_def is_blank_def digit_char_def str_int_def
  is_digit_def digit_val_def nat_of_digits_def py_int_of_str_def

lemmas validation_defs = lax_int_def lax_float_def not_empty_def
  ts_must_be_positive_def missing_def value_error_def check_str_field_def check_value_field_def
  check_ts_field_def check_raw_field_def errors_of_def EventPayload_init_def

lemmas store_defs = same_key_def put_item_def query_def send_message_def

lemmas handler_defs = response_def parse_body_def error_py_def request_id_of_def make_item_def
  make_sqs_msg_def enqueue_def store_def ingest_event_def given_def key_condition_def py_trunc_def
  row_py_def key_py_def limit_of_def get_device_events_def

lemmas example_defs = env_ok_def empty_world_def post_event_def post_json_def get_events_def
  event_ts_def ts_of_row_def

subsection \<open>What a parsed payload satisfies\<close>

lemma EventPayload_init_ts:
  assumes "EventPayload_init pyd data = Inr p"
  shows "0 < ts p"
  using assms
  by (auto simp: EventPayload_init_def check_ts_field_def ts_must_be_positive_def Let_def
           split: sum.splits option.splits if_splits)

lemma parse_body_ts:
  assumes "parse_body pyd event = Inr p"
  shows "0 < ts p"
  using assms
  by (auto simp: parse_body_def dest: EventPayload_init_ts
           split: body_in.splits sum.splits pyval.splits)

lemma ingest_event_parsed:
  "parse_body (lib w) event = Inr p \<Longrightarrow>
   ingest_event env w event ctx = store env w (request_id_of env ctx) p"
  by (simp add: ingest_event_def Let_def)

lemma make_item_ok: "0 < ts p \<Longrightarrow> item_ok (make_item env rid p)"
  by (simp add: item_ok_def make_item_def)

lemma make_item_fields [simp]:
  "PK (make_item env rid p) = ''DEVICE#'' @ device_id p"
  "SK (make_item env rid p) = ''TS#'' @ str_int (ts p)"
  "item_device_id (make_item env rid p) = device_id p"
  "item_ts (make_item env rid p) = ts p"
  by (simp_all add: make_item_def)

lemma same_key_item_ok:
  "item_ok x \<Longrightarrow> same_key (make_item env rid p) x = (item_device_id x = device_id p \<and> item_ts x = ts p)"
  by (auto simp: same_key_def item_ok_def dest: str_int_inj)

lemma filter_same_key:
  "store_inv tbl \<Longrightarrow> filter (same_key (make_item env rid p)) tbl = records_of (device_id p) (ts p) tbl"
  unfolding records_of_def store_inv_def
  by (rule filter_cong) (auto simp: list_all_iff same_key_item_ok)

lemma put_item_fresh:
  "store_inv tbl \<Longrightarrow> records_of (device_id p) (ts p) tbl = [] \<Longrightarrow>
   put_item None tbl (make_item env rid p) = Inr (tbl @ [make_item env rid p])"
  by (simp add: put_item_def filter_same_key)

lemma put_item_present:
  "store_inv tbl \<Longrightarrow> records_of (device_id p) (ts p) tbl \<noteq> [] \<Longrightarrow>
   \<exists>text. put_item None tbl (make_item env rid p) = Inl (ClientError ''ConditionalCheckFailedException'' text)"
  by (simp add: put_item_def filter_same_key)

subsection \<open>The table and the library after a call\<close>

lemma lib_enqueue [simp]: "lib (snd (enqueue env w rid p)) = lib w"
  by (simp add: enqueue_def send_message_def Let_def split: option.splits exn.splits)

lemma lib_store [simp]: "lib (snd (store env w rid p)) = lib w"
  by (simp add: store_def Let_def split: sum.splits exn.splits)

lemma lib_ingest_event [simp]: "lib (snd (ingest_event env w event ctx)) = lib w"
  by (simp add: ingest_event_def Let_def split: sum.splits exn.splits)

lemma lib_ingest_all [simp]: "lib (ingest_all w reqs) = lib w"
  by (induction w reqs rule: ingest_all.induct) simp_all

lemma enqueue_table: "table (snd (enqueue env w rid p)) = table w"
  by (simp add: enqueue_def send_message_def Let_def split: option.splits exn.splits)

lemma store_table:
  "table (snd (store env w rid p)) = table w \<or>
   table (snd (store env w rid p)) = table w @ [make_item env rid p]"
  by (auto simp: store_def put_item_def enqueue_table Let_def split: option.splits exn.splits sum.splits)

lemma ingest_event_table:
  "table (snd (ingest_event env w event ctx)) = table w \<or>
   (\<exists>p. parse_body (lib w) event = Inr p \<and>
        table (snd (ingest_event env w event ctx)) = table w @ [make_item env (request_id_of env ctx) p])"
proof (cases "parse_body (lib w) event")
  case (Inl e)
  then show ?thesis by (simp add: ingest_event_def Let_def split: exn.splits)
next
  case (Inr p)
  then show ?thesis using store_table[of env w "request_id_of env ctx" p]
    by (auto simp: ingest_event_parsed)
qed

lemma ingest_event_inv:
  assumes "store_inv (table w)"
  shows "store_inv (table (snd (ingest_event env w event ctx)))"
  using ingest_event_table[of env w event ctx] assms
  by (auto simp: store_inv_def dest!: parse_body_ts intro: make_item_ok)

lemma ingest_all_inv:
  "store_inv (table w) \<Longrightarrow> store_inv (table (ingest_all w reqs))"
  by (induction w reqs rule: ingest_all.induct) (auto intro: ingest_event_inv)

lemma empty_world_inv: "store_inv (table empty_world)"
  by (simp add: store_inv_def empty_world_def)

subsection \<open>Responses and validation\<close>

lemma statusCode_response [simp]: "statusCode (response s b r) = s"
  by (simp add: response_def Let_def)

lemma map_of_body_response:
  "k \<noteq> ''request_id'' \<Longrightarrow> map_of (body (response s (PDict d) r)) k = map_of d k"
  by (simp add: response_def Let_def update_conv')

lemma strip_Nil [simp]: "strip [] = []"
  by (simp add: strip_def)










lemma str_nat_1000: "str_nat 1000 = ''1000''"
  by (simp add: str_nat.simps digit_char_def)

lemma parse_post_event:
  "0 < t \<Longrightarrow> strip d \<noteq> [] \<Longrightarrow> length d \<le> 128 \<Longrightarrow>
   parse_body pyd (post_event d t)
     = Inr \<lparr>device_id = d, type = ''temp'', val = 43 / 2, ts = t, raw = None\<rparr>"
  by (auto simp: post_event_def parse_body_def validation_defs string_defs Let_def)

subsection \<open>Accepted events and the raw payload\<close>

lemma EventPayload_init_raw:
  assumes "EventPayload_init pyd data = Inr p"
  shows "raw p = (case map_of data ''raw'' of Some (PDict d) \<Rightarrow> Some d | _ \<Rightarrow> None)"
  using assms
  by (auto simp: EventPayload_init_def check_raw_field_def Let_def
           split: sum.splits option.splits pyval.splits)

lemma store_accepted:
  assumes "store env w rid p = (Inr resp, w')" and "statusCode resp = 201"
  shows "table w' = table w @ [make_item env rid p]"
  using assms
  by (auto simp: store_def enqueue_def put_item_def send_message_def Let_def
           split: option.splits exn.splits sum.splits if_splits)

lemma ingest_event_accepted:
  assumes run: "ingest_event env w event ctx = (Inr resp, w')" and st: "statusCode resp = 201"
  shows "\<exists>p. parse_body (lib w) event = Inr p \<and> table w' = table w @ [make_item env (request_id_of env ctx) p]"
proof (cases "parse_body (lib w) event")
  case (Inl e)
  then show ?thesis using run st by (auto simp: ingest_event_def Let_def split: exn.splits)
next
  case (Inr p)
  then have "store env w (request_id_of env ctx) p = (Inr resp, w')"
    using run by (simp add: ingest_event_parsed)
  from store_accepted[OF this st] Inr show ?thesis by simp
qed

subsection \<open>Where the items of a table come from\<close>

lemma ingest_all_table:
  "x \<in> set (table (ingest_all w reqs)) \<Longrightarrow>
   x \<in> set (table w) \<or>
   (\<exists>env event ctx p. (env, event, ctx) \<in> set reqs \<and> parse_body (lib w) event = Inr p \<and>
        x = make_item env (request_id_of env ctx) p)"
proof (induction w reqs rule: ingest_all.induct)
  case (1 w)
  then show ?case by simp
next
  case (2 w env event ctx rest)
  let ?w1 = "snd (ingest_event env w event ctx)"
  from 2 have "x \<in> set (table ?w1) \<or>
     (\<exists>env' event' ctx' p. (env', event', ctx') \<in> set rest \<and> parse_body (lib ?w1) event' = Inr p \<and>
        x = make_item env' (request_id_of env' ctx') p)" by simp
  then have "x \<in> set (table ?w1) \<or>
     (\<exists>env' event' ctx' p. (env', event', ctx') \<in> set rest \<and> parse_body (lib w) event' = Inr p \<and>
        x = make_item env' (request_id_of env' ctx') p)" by (simp only: lib_ingest_event)
  then show ?case
  proof
    assume mem: "x \<in> set (table ?w1)"
    have here: "(env, event, ctx) \<in> set ((env, event, ctx) # rest)" by simp
    from ingest_event_table[of env w event ctx] show ?thesis
    proof
      assume "table ?w1 = table w"
      with mem show ?thesis by simp
    next
      assume "\<exists>p. parse_body (lib w) event = Inr p \<and>
        table ?w1 = table w @ [make_item env (request_id_of env ctx) p]"
      then obtain p where p: "parse_body (lib w) event = Inr p"
        and t: "table ?w1 = table w @ [make_item env (request_id_of env ctx) p]"
        by blast
      from mem t have "x \<in> set (table w) \<or> x = make_item env (request_id_of env ctx) p" by auto
      with p here show ?thesis by blast
    qed
  next
    assume "\<exists>env' event' ctx' p. (env', event', ctx') \<in> set rest \<and> parse_body (lib w) event' = Inr p \<and>
        x = make_item env' (request_id_of env' ctx') p"
    then show ?thesis by (metis list.set_intros(2))
  qed
qed

lemma query_items:
  assumes "query fault tbl pk c limit fwd = Inr result"
  shows "set (Items result) \<subseteq> {x \<in> set tbl. PK x = pk \<and> sk_holds c (SK x)}"
proof -
  have "set (take n (rev xs)) \<subseteq> set xs" and "set (take n xs) \<subseteq> set xs" for n and xs :: "item list"
    using set_take_subset[of n "rev xs"] set_take_subset[of n xs] by auto
  then show ?thesis using assms
    by (auto simp: query_def Let_def split: option.splits if_splits dest!: in_set_takeD)
qed

lemma get_device_events_ok:
  assumes run: "get_device_events env w event ctx = (Inr resp, w')" and st: "statusCode resp = 200"
  shows "\<exists>limit result.
           limit_of (case queryStringParameters event of Some q \<Rightarrow> q | None \<Rightarrow> []) = Inr limit \<and>
           query (query_fault env) (table w) (''DEVICE#'' @ requested_device event)
             (key_condition
                (map_of (case queryStringParameters event of Some q \<Rightarrow> q | None \<Rightarrow> []) ''from_ts'')
                (map_of (case queryStringParameters event of Some q \<Rightarrow> q | None \<Rightarrow> []) ''to_ts''))
             limit False = Inr result \<and>
           map_of (body resp) ''events'' = Some (PList (map row_py (Items result)))"
proof -
  let ?qp = "case queryStringParameters event of Some q \<Rightarrow> q | None \<Rightarrow> []"
  let ?c = "key_condition (map_of ?qp ''from_ts'') (map_of ?qp ''to_ts'')"
  let ?pk = "''DEVICE#'' @ requested_device event"
  have dev: "requested_device event \<noteq> []"
  proof
    assume "requested_device event = []"
    then have "statusCode resp = 400"
      using run by (auto simp: get_device_events_def requested_device_def Let_def)
    with st show False by simp
  qed
  obtain limit where lim: "limit_of ?qp = Inr limit"
  proof (cases "limit_of ?qp")
    case (Inl e)
    then have "fst (get_device_events env w event ctx) = Inl e"
      using dev by (simp add: get_device_events_def requested_device_def Let_def)
    with run show ?thesis by simp
  next
    case (Inr n)
    then show ?thesis by (rule that)
  qed
  have unfold: "get_device_events env w event ctx =
      (case query (query_fault env) (table w) ?pk ?c limit False of
         Inl e \<Rightarrow>
           (case e of
              ClientError code text \<Rightarrow>
                (Inr (response 500 (PDict [(''error'', PStr ''Failed to retrieve events'')])
                        (Some (request_id_of env ctx))), w\<lparr>calls := calls w @ [Query ?pk ?c limit]\<rparr>)
            | _ \<Rightarrow> (Inl e, w\<lparr>calls := calls w @ [Query ?pk ?c limit]\<rparr>))
       | Inr result \<Rightarrow>
           (Inr (response 200
                   (PDict [(''device_id'', PStr (requested_device event)),
                           (''count'', PInt (int (length (Items result)))),
                           (''events'', PList (map row_py (Items result))),
                           (''last_evaluated_key'', key_py (LastEvaluatedKey result))])
                   (Some (request_id_of env ctx))), w\<lparr>calls := calls w @ [Query ?pk ?c limit]\<rparr>))"
    using dev lim
    by (simp add: get_device_events_def requested_device_def Let_def split: sum.splits exn.splits)
  show ?thesis
  proof (cases "query (query_fault env) (table w) ?pk ?c limit False")
    case (Inl e)
    then have "fst (get_device_events env w event ctx) = Inl e \<or>
               (\<exists>r. fst (get_device_events env w event ctx) = Inr r \<and> statusCode r = 500)"
      by (auto simp: unfold split: exn.splits)
    with run st show ?thesis by auto
  next
    case (Inr result)
    then have "resp = response 200
                   (PDict [(''device_id'', PStr (requested_device event)),
                           (''count'', PInt (int (length (Items result)))),
                           (''events'', PList (map row_py (Items result))),
                           (''last_evaluated_key'', key_py (LastEvaluatedKey result))])
                   (Some (request_id_of env ctx))"
      using run by (simp add: unfold)
    then have "map_of (body resp) ''events'' = Some (PList (map row_py (Items result)))"
      by (simp add: map_of_body_response)
    with lim Inr show ?thesis by blast
  qed
qed

subsection \<open>Sort keys of equal width\<close>

lemma ts_prefix_le: "(''TS#'' @ a \<le> ''TS#'' @ b) = (a \<le> (b :: string))"
  by simp

lemma str_int_pos: "0 < t \<Longrightarrow> str_int t = str_nat (nat t)"
  by (simp add: str_int_def)

lemma str_int_nonempty: "str_int t \<noteq> []"
  by (simp add: str_int_def str_nat_nonempty)

lemma sk_le_width:
  assumes "has_width n a" "has_width n b"
  shows "(''TS#'' @ str_int a \<le> ''TS#'' @ str_int b) = (a \<le> b)"
proof -
  from assms have a: "0 < a" and b: "0 < b"
    and len: "length (str_nat (nat a)) = length (str_nat (nat b))"
    by (auto simp: has_width_def str_int_pos)
  have "(str_nat (nat a) \<le> str_nat (nat b)) = (nat a \<le> nat b)" by (rule str_nat_le[OF len])
  moreover have "(nat a \<le> nat b) = (a \<le> b)" using a b by auto
  ultimately show ?thesis using a b by (simp add: str_int_pos)
qed

lemma given_str_int: "given (map_option str_int b) = map_option str_int b"
  by (cases b) (simp_all add: given_def str_int_nonempty)

lemma sk_holds_in_range:
  assumes lo: "bound_has_width n lo" and hi: "bound_has_width n hi" and t: "has_width n t"
  shows "sk_holds (key_condition (map_option str_int lo) (map_option str_int hi)) (''TS#'' @ str_int t)
           = in_range lo hi t"
proof (cases lo)
  case None
  show ?thesis
  proof (cases hi)
    case None
    with \<open>lo = None\<close> show ?thesis by (simp add: key_condition_def given_def in_range_def)
  next
    case (Some h)
    then have "has_width n h" using hi by (simp add: bound_has_width_def)
    from sk_le_width[OF t this] Some \<open>lo = None\<close> show ?thesis
      by (simp add: key_condition_def given_def in_range_def str_int_nonempty)
  qed
next
  case (Some f)
  then have wf: "has_width n f" using lo by (simp add: bound_has_width_def)
  show ?thesis
  proof (cases hi)
    case None
    from sk_le_width[OF wf t] None Some show ?thesis
      by (simp add: key_condition_def given_def in_range_def str_int_nonempty)
  next
    case (Some h)
    then have "has_width n h" using hi by (simp add: bound_has_width_def)
    from sk_le_width[OF wf t] sk_le_width[OF t this] Some \<open>lo = Some f\<close> show ?thesis
      by (simp add: key_condition_def given_def in_range_def str_int_nonempty)
  qed
qed

lemma query_all:
  assumes "1 \<le> limit"
    and "length (filter (\<lambda>x. PK x = pk \<and> sk_holds c (SK x)) tbl) \<le> nat limit"
  shows "\<exists>result. query None tbl pk c limit False = Inr result \<and>
           mset (Items result) = mset (filter (\<lambda>x. PK x = pk \<and> sk_holds c (SK x)) tbl)"
  using assms by (simp add: query_def Let_def)

subsection \<open>Evaluation\<close>

lemmas eval_defs = string_defs validation_defs store_defs handler_defs example_defs str_nat.simps
  Let_def update_conv'

section \<open>The claims\<close>

text \<open>
  C1 (idempotent insert). For a well-formed event whose \<open>(device_id, ts)\<close> pair has no
  record yet, in a table the handlers have filled, and with a store and a queue that do
  not fail: the first \<^verbatim>\<open>ingest_event\<close> call answers 201, the second one 409, and after
  both the table holds exactly one record for the pair, the one the first call wrote.
\<close>

theorem idempotent_insert:
  assumes parsed: "parse_body (lib w) event = Inr p"
    and inv: "store_inv (table w)"
    and fresh: "records_of (device_id p) (ts p) (table w) = []"
    and env1: "put_fault env1 = None" "send_fault env1 = None"
    and env2: "put_fault env2 = None"
    and first: "ingest_event env1 w event ctx1 = (r1, w1)"
    and second: "ingest_event env2 w1 event ctx2 = (r2, w2)"
  shows "\<exists>resp1 resp2.
           r1 = Inr resp1 \<and> statusCode resp1 = 201 \<and>
           r2 = Inr resp2 \<and> statusCode resp2 = 409 \<and>
           records_of (device_id p) (ts p) (table w2) = [make_item env1 (request_id_of env1 ctx1) p]"
proof -
  let ?it = "make_item env1 (request_id_of env1 ctx1) p"
  have put1: "put_item (put_fault env1) (table w) ?it = Inr (table w @ [?it])"
    using put_item_fresh[OF inv fresh] env1 by simp
  have one: "store env1 w (request_id_of env1 ctx1) p = (r1, w1)"
    using first parsed by (simp add: ingest_event_parsed)
  then have r1: "\<exists>resp1. r1 = Inr resp1 \<and> statusCode resp1 = 201" and t1: "table w1 = table w @ [?it]"
    using put1 env1 by (auto simp: store_def enqueue_def send_message_def response_def Let_def)
  have inv1: "store_inv (table w1)"
    using ingest_event_inv[OF inv, of env1 event ctx1] first by simp
  have recs1: "records_of (device_id p) (ts p) (table w1) = [?it]"
    using t1 fresh by (simp add: records_of_def)
  then have "records_of (device_id p) (ts p) (table w1) \<noteq> []" by simp
  from put_item_present[OF inv1 this]
  obtain errtext where put2:
    "put_item (put_fault env2) (table w1) (make_item env2 (request_id_of env2 ctx2) p)
       = Inl (ClientError ''ConditionalCheckFailedException'' errtext)"
    using env2 by metis
  have "lib w1 = lib w"
    using lib_ingest_event[of env1 w event ctx1] first by simp
  then have two: "store env2 w1 (request_id_of env2 ctx2) p = (r2, w2)"
    using second parsed by (simp add: ingest_event_parsed)
  then have r2: "\<exists>resp2. r2 = Inr resp2 \<and> statusCode resp2 = 409" and t2: "table w2 = table w1"
    using put2 by (auto simp: store_def response_def Let_def)
  show ?thesis using r1 r2 t2 recs1 by auto
qed

theorem idempotent_insert_witness:
  "parse_body (lib empty_world) (post_event ''d1'' 1000) =
     Inr \<lparr>device_id = ''d1'', type = ''temp'', val = 43 / 2, ts = 1000, raw = None\<rparr> \<and>
   store_inv (table empty_world) \<and> records_of ''d1'' 1000 (table empty_world) = [] \<and>
   put_fault env_ok = None \<and> send_fault env_ok = None \<and>
   (\<exists>resp1 resp2 w1 w2.
      ingest_event env_ok empty_world (post_event ''d1'' 1000) None = (Inr resp1, w1) \<and>
      statusCode resp1 = 201 \<and>
      ingest_event env_ok w1 (post_event ''d1'' 1000) (Some ''req-2'') = (Inr resp2, w2) \<and>
      statusCode resp2 = 409 \<and>
      length (records_of ''d1'' 1000 (table w2)) = 1)"
proof -
  let ?p = "\<lparr>device_id = ''d1'', type = ''temp'', val = 43 / 2, ts = 1000, raw = None\<rparr>"
  have p: "parse_body (lib empty_world) (post_event ''d1'' 1000) = Inr ?p"
    by (rule parse_post_event) (simp_all add: strip_def is_space_def)
  have inv: "store_inv (table empty_world)"
    by (simp add: store_inv_def empty_world_def)
  have fresh: "records_of (device_id ?p) (ts ?p) (table empty_world) = []"
    by (simp add: records_of_def empty_world_def)
  have e: "put_fault env_ok = None" "send_fault env_ok = None"
    by (simp_all add: env_ok_def)
  obtain r1 w1 where first: "ingest_event env_ok empty_world (post_event ''d1'' 1000) None = (r1, w1)"
    by (cases "ingest_event env_ok empty_world (post_event ''d1'' 1000) None") blast
  obtain r2 w2 where second: "ingest_event env_ok w1 (post_event ''d1'' 1000) (Some ''req-2'') = (r2, w2)"
    by (cases "ingest_event env_ok w1 (post_event ''d1'' 1000) (Some ''req-2'')") blast
  from idempotent_insert[OF p inv fresh e e(1) first second]
  obtain resp1 resp2 where
    "r1 = Inr resp1" "statusCode resp1 = 201" "r2 = Inr resp2" "statusCode resp2 = 409"
    "records_of (device_id ?p) (ts ?p) (table w2) = [make_item env_ok (request_id_of env_ok None) ?p]"
    by blast
  then show ?thesis using p inv fresh e first second by auto
qed

text \<open>
  C2 (descending timestamps). The sort key is \<^verbatim>\<open>"TS#" + str(ts)\<close> without padding, and
  the store orders sort keys as strings. With the events of timestamps 9 and 10 stored
  for one device, \<^verbatim>\<open>get_device_events\<close> lists 9 before 10: the list is not in
  descending order of the integer \<open>ts\<close>.
\<close>

theorem newest_first_broken:
  "\<exists>resp w.
     get_device_events env_ok
       (ingest_all empty_world [(env_ok, post_event ''d1'' 9, None), (env_ok, post_event ''d1'' 10, None)])
       (get_events ''d1'' []) None = (Inr resp, w) \<and>
     statusCode resp = 200 \<and> event_ts resp = [PInt 9, PInt 10]"
  by (simp add: eval_defs)

text \<open>
  C3 (range correctness), the claim as stated fails: with the events of timestamps 100
  and 200 stored and both within the bounds, a request with \<^verbatim>\<open>limit=1\<close> returns only the
  event of timestamp 200.
\<close>

theorem range_capped_by_limit:
  "\<exists>resp w.
     get_device_events env_ok
       (ingest_all empty_world [(env_ok, post_event ''d1'' 100, None), (env_ok, post_event ''d1'' 200, None)])
       (get_events ''d1'' [(''from_ts'', ''100''), (''to_ts'', ''200''), (''limit'', ''1'')]) None
       = (Inr resp, w) \<and>
     event_ts resp = [PInt 200] \<and>
     map item_ts (table (ingest_all empty_world
        [(env_ok, post_event ''d1'' 100, None), (env_ok, post_event ''d1'' 200, None)])) = [100, 200]"
  by (simp add: eval_defs)

text \<open>
  C3 (range correctness), amended. In a table the handlers have filled, with a store
  that does not fail, bounds that are the decimal forms of positive integers, a
  \<^verbatim>\<open>limit\<close> of at least 1 that is not below the number of matching events, and when
  the bounds given and the timestamps stored for the device all have the same number of
  digits: \<^verbatim>\<open>get_device_events\<close> answers 200 and its events are exactly the stored
  events of the device with \<open>from_ts \<le> ts \<le> to_ts\<close>, each once (a bound that is absent
  does not restrict).
\<close>

theorem range_query_same_width:
  assumes inv: "store_inv (table w)"
    and nofault: "query_fault env = None"
    and dev: "requested_device event \<noteq> []"
    and qp: "queryStringParameters event = Some qp"
    and lo: "map_of qp ''from_ts'' = map_option str_int lo"
    and hi: "map_of qp ''to_ts'' = map_option str_int hi"
    and lim: "limit_of qp = Inr limit" "1 \<le> limit"
    and wlo: "bound_has_width n lo" and whi: "bound_has_width n hi"
    and wts: "list_all (\<lambda>x. has_width n (item_ts x))
                (filter (\<lambda>x. item_device_id x = requested_device event) (table w))"
    and cap: "length (stored_in_range (requested_device event) lo hi (table w)) \<le> nat limit"
  shows "\<exists>resp w' rows.
           get_device_events env w event ctx = (Inr resp, w') \<and> statusCode resp = 200 \<and>
           map_of (body resp) ''events'' = Some (PList (map row_py rows)) \<and>
           mset rows = mset (stored_in_range (requested_device event) lo hi (table w))"
proof -
  let ?dev = "requested_device event"
  let ?pk = "''DEVICE#'' @ ?dev"
  let ?c = "key_condition (map_of qp ''from_ts'') (map_of qp ''to_ts'')"
  have same: "filter (\<lambda>x. PK x = ?pk \<and> sk_holds ?c (SK x)) (table w)
                = stored_in_range ?dev lo hi (table w)"
    unfolding stored_in_range_def
  proof (rule filter_cong[OF refl])
    fix x assume x: "x \<in> set (table w)"
    with inv have ok: "item_ok x" by (simp add: store_inv_def list_all_iff)
    show "(PK x = ?pk \<and> sk_holds ?c (SK x)) = (item_device_id x = ?dev \<and> in_range lo hi (item_ts x))"
    proof (cases "item_device_id x = ?dev")
      case True
      with x wts have "has_width n (item_ts x)" by (simp add: list_all_iff)
      from sk_holds_in_range[OF wlo whi this] True ok show ?thesis
        by (simp add: item_ok_def lo hi)
    next
      case False
      with ok show ?thesis by (simp add: item_ok_def)
    qed
  qed
  have "length (filter (\<lambda>x. PK x = ?pk \<and> sk_holds ?c (SK x)) (table w)) \<le> nat limit"
    using cap by (simp only: same)
  from query_all[OF lim(2) this]
  obtain result where
    q: "query None (table w) ?pk ?c limit False = Inr result"
    and ms': "mset (Items result) = mset (filter (\<lambda>x. PK x = ?pk \<and> sk_holds ?c (SK x)) (table w))"
    by blast
  have ms: "mset (Items result) = mset (stored_in_range ?dev lo hi (table w))"
    using ms' by (simp only: same)
  have "get_device_events env w event ctx =
      (Inr (response 200
              (PDict [(''device_id'', PStr ?dev),
                      (''count'', PInt (int (length (Items result)))),
                      (''events'', PList (map row_py (Items result))),
                      (''last_evaluated_key'', key_py (LastEvaluatedKey result))])
              (Some (request_id_of env ctx))),
       w\<lparr>calls := calls w @ [Query ?pk ?c limit]\<rparr>)"
    using dev qp lim(1) q nofault
    by (simp add: get_device_events_def requested_device_def Let_def)
  then show ?thesis using ms by (auto simp: map_of_body_response)
qed

theorem range_query_same_width_witness:
  "store_inv (table (ingest_all empty_world
       [(env_ok, post_event ''d1'' 100, None), (env_ok, post_event ''d1'' 200, None),
        (env_ok, post_event ''d1'' 300, None), (env_ok, post_event ''d2'' 250, None)])) \<and>
   query_fault env_ok = None \<and>
   requested_device (get_events ''d1'' [(''from_ts'', ''150''), (''to_ts'', ''300'')]) = ''d1'' \<and>
   map_option str_int (Some 150) = Some ''150'' \<and>
   map_option str_int (Some 300) = Some ''300'' \<and>
   limit_of [(''from_ts'', ''150''), (''to_ts'', ''300'')] = Inr 100 \<and>
   bound_has_width 3 (Some 150) \<and> bound_has_width 3 (Some 300) \<and>
   (\<exists>resp w' rows.
      get_device_events env_ok
        (ingest_all empty_world
          [(env_ok, post_event ''d1'' 100, None), (env_ok, post_event ''d1'' 200, None),
           (env_ok, post_event ''d1'' 300, None), (env_ok, post_event ''d2'' 250, None)])
        (get_events ''d1'' [(''from_ts'', ''150''), (''to_ts'', ''300'')]) None = (Inr resp, w') \<and>
      statusCode resp = 200 \<and>
      map_of (body resp) ''events'' = Some (PList (map row_py rows)) \<and>
      mset (map item_ts rows) = {#200, 300#})"
proof -
  let ?reqs = "[(env_ok, post_event ''d1'' 100, None), (env_ok, post_event ''d1'' 200, None),
                (env_ok, post_event ''d1'' 300, None), (env_ok, post_event ''d2'' 250, None)]"
  let ?w = "ingest_all empty_world ?reqs"
  let ?qp = "[(''from_ts'', ''150''), (''to_ts'', ''300'')]"
  let ?ev = "get_events ''d1'' ?qp"
  have inv: "store_inv (table ?w)" by (rule ingest_all_inv[OF empty_world_inv])
  have nf: "query_fault env_ok = None" by (simp add: env_ok_def)
  have dev: "requested_device ?ev = ''d1''"
    by (simp add: requested_device_def get_events_def strip_def is_space_def)
  then have dev': "requested_device ?ev \<noteq> []" by simp
  have qp: "queryStringParameters ?ev = Some ?qp" by (simp add: get_events_def)
  have s150: "map_option str_int (Some 150) = Some ''150''"
    and s300: "map_option str_int (Some 300) = Some ''300''"
    by (simp_all add: str_int_def str_nat.simps digit_char_def)
  have lo: "map_of ?qp ''from_ts'' = map_option str_int (Some 150)"
    and hi: "map_of ?qp ''to_ts'' = map_option str_int (Some 300)"
    by (simp_all only: s150 s300) simp_all
  have lim: "limit_of ?qp = Inr 100" by (simp add: limit_of_def)
  have one: "(1::int) \<le> 100" by simp
  have wlo: "bound_has_width 3 (Some 150)" and whi: "bound_has_width 3 (Some 300)"
    by (simp_all add: bound_has_width_def has_width_def str_int_def str_nat.simps digit_char_def)
  have ts: "map (\<lambda>x. (item_device_id x, item_ts x)) (table ?w)
              = [(''d1'', 100), (''d1'', 200), (''d1'', 300), (''d2'', 250)]"
    by (simp add: eval_defs)
  have wts: "list_all (\<lambda>x. has_width 3 (item_ts x))
               (filter (\<lambda>x. item_device_id x = requested_device ?ev) (table ?w))"
  proof -
    have "list_all (\<lambda>p. fst p = ''d1'' \<longrightarrow> has_width 3 (snd p))
            (map (\<lambda>x. (item_device_id x, item_ts x)) (table ?w))"
      unfolding ts by (simp add: has_width_def str_int_def str_nat.simps digit_char_def)
    then show ?thesis unfolding dev by (simp add: list_all_iff)
  qed
  have rng: "map item_ts (stored_in_range (requested_device ?ev) (Some 150) (Some 300) (table ?w))
               = [200, 300]"
  proof -
    have "map item_ts (stored_in_range ''d1'' (Some 150) (Some 300) (table ?w))
            = map snd (filter (\<lambda>p. fst p = ''d1'' \<and> in_range (Some 150) (Some 300) (snd p))
                 (map (\<lambda>x. (item_device_id x, item_ts x)) (table ?w)))"
      by (simp add: stored_in_range_def filter_map comp_def)
    also have "\<dots> = [200, 300]" unfolding ts by (simp add: in_range_def)
    finally show ?thesis unfolding dev .
  qed
  have cap: "length (stored_in_range (requested_device ?ev) (Some 150) (Some 300) (table ?w)) \<le> nat 100"
    using arg_cong[OF rng, of length] by simp
  let ?S = "stored_in_range (requested_device ?ev) (Some 150) (Some 300) (table ?w)"
  from range_query_same_width[OF inv nf dev' qp lo hi lim one wlo whi wts cap, of None]
  obtain resp where "\<exists>w' rows.
      get_device_events env_ok ?w ?ev None = (Inr resp, w') \<and> statusCode resp = 200 \<and>
      map_of (body resp) ''events'' = Some (PList (map row_py rows)) \<and> mset rows = mset ?S" ..
  then obtain w' where "\<exists>rows.
      get_device_events env_ok ?w ?ev None = (Inr resp, w') \<and> statusCode resp = 200 \<and>
      map_of (body resp) ''events'' = Some (PList (map row_py rows)) \<and> mset rows = mset ?S" ..
  then obtain rows where all:
     "get_device_events env_ok ?w ?ev None = (Inr resp, w') \<and> statusCode resp = 200 \<and>
      map_of (body resp) ''events'' = Some (PList (map row_py rows)) \<and> mset rows = mset ?S" ..
  from all have run: "get_device_events env_ok ?w ?ev None = (Inr resp, w')" by (elim conjE)
  from all have st: "statusCode resp = 200" by (elim conjE)
  from all have ev: "map_of (body resp) ''events'' = Some (PList (map row_py rows))" by (elim conjE)
  from all have ms: "mset rows = mset ?S" by (elim conjE)
  have "mset (map item_ts rows) = mset (map item_ts
        (stored_in_range (requested_device ?ev) (Some 150) (Some 300) (table ?w)))"
    using arg_cong[OF ms, of "image_mset item_ts"] by (simp only: mset_map)
  then have "mset (map item_ts rows) = {#200, 300#}" by (simp only: rng) simp
  with run st ev have "\<exists>resp w' rows.
      get_device_events env_ok ?w ?ev None = (Inr resp, w') \<and> statusCode resp = 200 \<and>
      map_of (body resp) ''events'' = Some (PList (map row_py rows)) \<and>
      mset (map item_ts rows) = {#200, 300#}" by (intro exI conjI)
  then show ?thesis using inv nf dev s150 s300 lim wlo whi by (intro conjI)
qed

text \<open>
  C4 (write, then publish). In every run of \<^verbatim>\<open>ingest_event\<close>, if a message was sent to
  the queue at all, then the body was valid, the conditional write came first and was
  accepted (the item is in the table), and the publish is the only call after it; when
  the write ends as a duplicate or a failure, the write is the only call made: no
  publish is attempted.
\<close>

theorem write_then_publish:
  assumes run: "ingest_event env w event ctx = (r, w')"
  shows "\<exists>cs. calls w' = calls w @ cs \<and>
     (filter is_send cs \<noteq> [] \<longrightarrow>
        (\<exists>p m. parse_body (lib w) event = Inr p \<and>
               outcome_of (put_item (put_fault env) (table w) (make_item env (request_id_of env ctx) p)) = Accepted \<and>
               cs = [PutItem (make_item env (request_id_of env ctx) p), SendMessage m] \<and>
               table w' = table w @ [make_item env (request_id_of env ctx) p])) \<and>
     (\<forall>p. parse_body (lib w) event = Inr p \<longrightarrow>
          outcome_of (put_item (put_fault env) (table w) (make_item env (request_id_of env ctx) p)) \<noteq> Accepted \<longrightarrow>
          cs = [PutItem (make_item env (request_id_of env ctx) p)])"
proof (cases "parse_body (lib w) event")
  case (Inl e)
  then have "w' = w" using run by (auto simp: ingest_event_def Let_def split: exn.splits)
  then show ?thesis using Inl by simp
next
  case (Inr p)
  let ?it = "make_item env (request_id_of env ctx) p"
  have st: "store env w (request_id_of env ctx) p = (r, w')"
    using run Inr by (simp add: ingest_event_parsed)
  show ?thesis
  proof (cases "put_item (put_fault env) (table w) ?it")
    case (Inl e)
    then have "calls w' = calls w @ [PutItem ?it]"
      using st by (auto simp: store_def Let_def split: exn.splits if_splits)
    moreover have "outcome_of (put_item (put_fault env) (table w) ?it) \<noteq> Accepted"
      using Inl by (simp add: outcome_of_def split: exn.splits)
    ultimately show ?thesis using Inr by simp
  next
    case put: (Inr tbl')
    then have tbl': "tbl' = table w @ [?it]"
      by (auto simp: put_item_def split: option.splits if_splits)
    have "calls w' = calls w @ [PutItem ?it, SendMessage (make_sqs_msg (request_id_of env ctx) p)]"
      and "table w' = tbl'"
      using st put by (auto simp: store_def enqueue_def send_message_def Let_def split: exn.splits option.splits)
    moreover have "outcome_of (put_item (put_fault env) (table w) ?it) = Accepted"
      using put by (simp add: outcome_of_def)
    ultimately show ?thesis using Inr tbl' by simp
  qed
qed

theorem write_then_publish_witness:
  "(\<exists>r w1. ingest_event env_ok empty_world (post_event ''d1'' 1000) None = (r, w1) \<and>
      filter is_send (calls w1) \<noteq> [] \<and>
      (\<exists>it m. calls w1 = [PutItem it, SendMessage m] \<and> table w1 = [it] \<and>
          outcome_of (put_item (put_fault env_ok) [] it) = Accepted \<and>
          (\<exists>r' w2. ingest_event env_ok w1 (post_event ''d1'' 1000) None = (r', w2) \<and>
               outcome_of (put_item (put_fault env_ok) (table w1) it) = Duplicate \<and>
               calls w2 = calls w1 @ [PutItem it])))"
proof -
  let ?p = "\<lparr>device_id = ''d1'', type = ''temp'', val = 43 / 2, ts = 1000, raw = None\<rparr>"
  let ?it = "make_item env_ok (request_id_of env_ok None) ?p"
  have p: "parse_body pyd (post_event ''d1'' 1000) = Inr ?p" for pyd
    by (rule parse_post_event) (simp_all add: strip_def is_space_def)
  obtain r w1 where first: "ingest_event env_ok empty_world (post_event ''d1'' 1000) None = (r, w1)"
    by (cases "ingest_event env_ok empty_world (post_event ''d1'' 1000) None") blast
  obtain r' w2 where second: "ingest_event env_ok w1 (post_event ''d1'' 1000) None = (r', w2)"
    by (cases "ingest_event env_ok w1 (post_event ''d1'' 1000) None") blast
  have acc: "outcome_of (put_item (put_fault env_ok) (table empty_world) ?it) = Accepted"
    by (simp add: outcome_of_def put_item_def env_ok_def empty_world_def)
  have c1: "calls w1 = [PutItem ?it, SendMessage (make_sqs_msg (request_id_of env_ok None) ?p)]"
    and t1: "table w1 = [?it]"
    using first p by (auto simp: ingest_event_parsed store_def enqueue_def put_item_def send_message_def
        env_ok_def empty_world_def Let_def)
  have dup: "outcome_of (put_item (put_fault env_ok) (table w1) ?it) = Duplicate"
    by (simp add: t1 outcome_of_def put_item_def env_ok_def same_key_def)
  from write_then_publish[OF second] p dup
  have "calls w2 = calls w1 @ [PutItem ?it]" by auto
  then show ?thesis using first second c1 t1 acc dup by (auto simp: empty_world_def)
qed

text \<open>
  C5 (total error handling). A request without a body makes \<^verbatim>\<open>_parse_body\<close> raise
  \<^verbatim>\<open>ValueError\<close>, which \<^verbatim>\<open>ingest_event\<close> does not catch; a \<^verbatim>\<open>limit\<close> that is not an
  integer makes \<^verbatim>\<open>int(...)\<close> raise \<^verbatim>\<open>ValueError\<close> in \<^verbatim>\<open>get_device_events\<close>, outside
  any \<^verbatim>\<open>try\<close>. Both leave the handler as exceptions, not as responses.
\<close>

theorem missing_body_escapes:
  "fst (ingest_event env_ok empty_world
          \<lparr>event_body = NoBody, pathParameters = None, queryStringParameters = None\<rparr> None)
     = Inl (ValueError ''Message Body is required'') \<and>
   fst (get_device_events env_ok empty_world (get_events ''d1'' [(''limit'', ''abc'')]) None)
     = Inl (ValueError (''invalid literal for int() with base 10: '' @ [CHR 0x27] @ ''abc'' @ [CHR 0x27]))"
  by (simp add: eval_defs)

text \<open>
  C6 (query parameter validation). \<^verbatim>\<open>from_ts=abc\<close> and \<^verbatim>\<open>to_ts=-5\<close> are not rejected:
  they go into the key condition of the store query as they are, and the answer is 200.
  A \<^verbatim>\<open>limit\<close> of -3 is not rejected by the handler either: it is passed to the store
  query.
\<close>

theorem query_bounds_not_validated:
  "(\<exists>resp w.
      get_device_events env_ok empty_world
        (get_events ''d1'' [(''from_ts'', ''abc''), (''to_ts'', ''-5'')]) None = (Inr resp, w) \<and>
      statusCode resp = 200 \<and>
      calls w = [Query ''DEVICE#d1'' (SK_between ''TS#abc'' ''TS#-5'') 100]) \<and>
   calls (snd (get_device_events env_ok empty_world (get_events ''d1'' [(''limit'', ''-3'')]) None))
     = [Query ''DEVICE#d1'' SK_any (- 3)]"
  by (simp add: eval_defs)

text \<open>
  C7 (request id on every response). When the write succeeds and the publish raises a
  \<^verbatim>\<open>ClientError\<close>, the 500 response is built without the request id: its body holds
  only \<^verbatim>\<open>message\<close> and \<^verbatim>\<open>error\<close>, and the header \<^verbatim>\<open>X-Request-Id\<close> is empty.
\<close>

theorem publish_failure_response_lacks_request_id:
  "fst (ingest_event (env_ok\<lparr>send_fault := Some (ClientError ''AccessDenied'' ''denied'')\<rparr>)
          empty_world (post_event ''d1'' 1000) (Some ''req-1''))
   = Inr \<lparr>statusCode = 500,
           headers = [(''Content-Type'', ''application/json''), (''X-Request-Id'', [])],
           body = [(''message'', PStr ''SQS Enqueue failed,''), (''error'', PStr ''denied'')]\<rparr>"
  by (simp add: eval_defs)



text \<open>
  C9 (raw pass-through), the claim as stated fails: an event with \<^verbatim>\<open>"raw": {}\<close> is
  accepted, and the stored record has no \<^verbatim>\<open>raw\<close> attribute (\<^verbatim>\<open>if payload.raw:\<close> is false
  for an empty dict).
\<close>

theorem empty_raw_dropped:
  "\<exists>resp w.
     ingest_event env_ok empty_world
       (post_json [(''device_id'', PStr ''d1''), (''type'', PStr ''temp''), (''value'', PFloat (43 / 2)),
                   (''ts'', PInt 1000), (''raw'', PDict [])]) None = (Inr resp, w) \<and>
     statusCode resp = 201 \<and> map item_raw (table w) = [None]"
  by (simp add: eval_defs)

text \<open>
  C9 (raw pass-through), amended. For every accepted event (201), the record added to
  the table holds the \<^verbatim>\<open>raw\<close> object of the input unchanged when the input has one that
  is not empty; when \<^verbatim>\<open>raw\<close> is absent, null or the empty object, the record has no
  \<^verbatim>\<open>raw\<close> attribute.
\<close>

theorem raw_pass_through:
  assumes body: "event_body event = StrBody (Inr (PDict data))"
    and run: "ingest_event env w event ctx = (Inr resp, w')"
    and st: "statusCode resp = 201"
  shows "\<exists>it. table w' = table w @ [it] \<and>
           item_raw it =
             (case map_of data ''raw'' of
                Some (PDict d) \<Rightarrow> if d \<noteq> [] then Some d else None
              | _ \<Rightarrow> None)"
proof -
  from ingest_event_accepted[OF run st] obtain p where
    p: "parse_body (lib w) event = Inr p" and t: "table w' = table w @ [make_item env (request_id_of env ctx) p]"
    by blast
  from p body have "EventPayload_init (lib w) data = Inr p"
    by (auto simp: parse_body_def split: sum.splits)
  then have "raw p = (case map_of data ''raw'' of Some (PDict d) \<Rightarrow> Some d | _ \<Rightarrow> None)"
    by (rule EventPayload_init_raw)
  then have "item_raw (make_item env (request_id_of env ctx) p) =
      (case map_of data ''raw'' of Some (PDict d) \<Rightarrow> if d \<noteq> [] then Some d else None | _ \<Rightarrow> None)"
    by (auto simp: make_item_def split: option.splits pyval.splits)
  with t show ?thesis by blast
qed

theorem raw_pass_through_witness:
  "event_body (post_json [(''device_id'', PStr ''d1''), (''type'', PStr ''temp''),
                          (''value'', PFloat (43 / 2)), (''ts'', PInt 1000),
                          (''raw'', PDict [(''unit'', PStr ''C'')])])
     = StrBody (Inr (PDict [(''device_id'', PStr ''d1''), (''type'', PStr ''temp''),
                            (''value'', PFloat (43 / 2)), (''ts'', PInt 1000),
                            (''raw'', PDict [(''unit'', PStr ''C'')])])) \<and>
   (\<exists>resp w'.
      ingest_event env_ok empty_world
        (post_json [(''device_id'', PStr ''d1''), (''type'', PStr ''temp''),
                    (''value'', PFloat (43 / 2)), (''ts'', PInt 1000),
                    (''raw'', PDict [(''unit'', PStr ''C'')])]) None = (Inr resp, w') \<and>
      statusCode resp = 201 \<and>
      map item_raw (table w') = [Some [(''unit'', PStr ''C'')]])"
proof -
  let ?data = "[(''device_id'', PStr ''d1''), (''type'', PStr ''temp''),
                (''value'', PFloat (43 / 2)), (''ts'', PInt 1000),
                (''raw'', PDict [(''unit'', PStr ''C'')])]"
  have b: "event_body (post_json ?data) = StrBody (Inr (PDict ?data))"
    by (simp add: post_json_def)
  have "\<exists>resp w'. ingest_event env_ok empty_world (post_json ?data) None = (Inr resp, w') \<and>
          statusCode resp = 201"
    by (simp add: eval_defs)
  then obtain resp w' where run: "ingest_event env_ok empty_world (post_json ?data) None = (Inr resp, w')"
    and st: "statusCode resp = 201" by blast
  from raw_pass_through[OF b run st] obtain it where
    "table w' = table empty_world @ [it]" "item_raw it = Some [(''unit'', PStr ''C'')]"
    by auto
  then have "map item_raw (table w') = [Some [(''unit'', PStr ''C'')]]"
    by (simp add: empty_world_def)
  with b run st show ?thesis by auto
qed

text \<open>
  C10 (partition isolation). The partition key is an injective function of the device
  id; and after any sequence of ingest requests on the empty store, every event a
  successful \<^verbatim>\<open>get_device_events\<close> lists has the device id of the request and was
  written by an ingest request for that very device id.
\<close>

theorem partition_isolation:
  assumes w: "w = ingest_all empty_world reqs"
    and run: "get_device_events env w event ctx = (Inr resp, w')"
    and st: "statusCode resp = 200"
  shows "(\<forall>e1 r1 p1 e2 r2 p2.
            (PK (make_item e1 r1 p1) = PK (make_item e2 r2 p2)) = (device_id p1 = device_id p2)) \<and>
         (\<exists>rows. map_of (body resp) ''events'' = Some (PList (map row_py rows)) \<and>
            (\<forall>x \<in> set rows.
               item_device_id x = requested_device event \<and>
               (\<exists>env' event' ctx' p. (env', event', ctx') \<in> set reqs \<and> parse_body (lib w) event' = Inr p \<and>
                   device_id p = requested_device event \<and>
                   x = make_item env' (request_id_of env' ctx') p)))"
proof -
  have inv: "store_inv (table w)"
    unfolding w by (rule ingest_all_inv[OF empty_world_inv])
  from get_device_events_ok[OF run st] obtain c limit result where
    q: "query (query_fault env) (table w) (''DEVICE#'' @ requested_device event) c limit False = Inr result"
    and ev: "map_of (body resp) ''events'' = Some (PList (map row_py (Items result)))"
    by blast
  have "item_device_id x = requested_device event \<and>
        (\<exists>env' event' ctx' p. (env', event', ctx') \<in> set reqs \<and> parse_body (lib w) event' = Inr p \<and>
             device_id p = requested_device event \<and> x = make_item env' (request_id_of env' ctx') p)"
    if x: "x \<in> set (Items result)" for x
  proof -
    from query_items[OF q] x have mem: "x \<in> set (table w)"
      and pk: "PK x = ''DEVICE#'' @ requested_device event" by auto
    from inv mem have "item_ok x" by (simp add: store_inv_def list_all_iff)
    with pk have dev: "item_device_id x = requested_device event" by (simp add: item_ok_def)
    from mem have "x \<in> set (table (ingest_all empty_world reqs))" by (simp add: w)
    from ingest_all_table[OF this] have "\<exists>env' event' ctx' p.
        (env', event', ctx') \<in> set reqs \<and> parse_body (lib empty_world) event' = Inr p \<and>
        x = make_item env' (request_id_of env' ctx') p"
      by (simp add: empty_world_inv[unfolded store_inv_def] empty_world_def)
    moreover have "lib w = lib empty_world" by (simp only: w lib_ingest_all)
    ultimately obtain env' event' ctx' p where
      "(env', event', ctx') \<in> set reqs" "parse_body (lib w) event' = Inr p"
      "x = make_item env' (request_id_of env' ctx') p"
      by auto
    with dev show ?thesis by auto
  qed
  then show ?thesis using ev by auto
qed

theorem partition_isolation_witness:
  "\<exists>resp w' rows.
     get_device_events env_ok
       (ingest_all empty_world [(env_ok, post_event ''d1'' 100, None), (env_ok, post_event ''d2'' 200, None)])
       (get_events ''d1'' []) None = (Inr resp, w') \<and>
     statusCode resp = 200 \<and>
     map_of (body resp) ''events'' = Some (PList (map row_py rows)) \<and>
     rows \<noteq> [] \<and> list_all (\<lambda>x. item_device_id x = ''d1'') rows"
proof -
  let ?reqs = "[(env_ok, post_event ''d1'' 100, None), (env_ok, post_event ''d2'' 200, None)]"
  have "\<exists>resp w'. get_device_events env_ok (ingest_all empty_world ?reqs) (get_events ''d1'' []) None
           = (Inr resp, w') \<and> statusCode resp = 200 \<and>
           (\<exists>r. map_of (body resp) ''events'' = Some (PList [r]))"
    by (simp add: eval_defs)
  then obtain resp w' r where
    run: "get_device_events env_ok (ingest_all empty_world ?reqs) (get_events ''d1'' []) None = (Inr resp, w')"
    and st: "statusCode resp = 200"
    and one: "map_of (body resp) ''events'' = Some (PList [r])" by blast
  have dev: "requested_device (get_events ''d1'' []) = ''d1''"
    by (simp add: requested_device_def get_events_def strip_def is_space_def)
  from partition_isolation[OF refl run st] obtain rows where
    ev: "map_of (body resp) ''events'' = Some (PList (map row_py rows))"
    and all: "\<forall>x \<in> set rows. item_device_id x = requested_device (get_events ''d1'' [])"
    by blast
  from ev one have "rows \<noteq> []" by auto
  moreover from all dev have "list_all (\<lambda>x. item_device_id x = ''d1'') rows"
    by (simp add: list_all_iff)
  ultimately show ?thesis using run st ev by auto
qed

end
